theory Spec2Isabelle
  imports Main "HOL-Library.Word"
begin

unbundle bit_operations_syntax

section \<open>Data model of pg\_uuidv7.c\<close>

text \<open>
  The C file works on \<open>uint64_t\<close> values and on the 16 bytes of a \<open>pg_uuid_t\<close>.
  A \<open>uint64_t\<close> is a 64-bit word (arithmetic wraps, \<open>div\<close> is the unsigned
  division of C); an \<open>unsigned char\<close> is an 8-bit word. The struct \<open>pg_uuid_t\<close> has the
  single member \<open>unsigned char data[UUID_LEN]\<close> and is modelled by that array, a list
  of bytes. The signed 64-bit types \<open>Timestamp\<close>, \<open>TimestampTz\<close>, \<open>time_t\<close> and
  \<open>long\<close> are held as their two's complement words and read with \<open>sint\<close>.
\<close>

type_synonym uint8 = "8 word"
type_synonym uint64 = "64 word"
type_synonym pg_uuid_t = "uint8 list"

definition UUID_LEN :: nat where
  "UUID_LEN = 16"

record timespec =
  tv_sec :: uint64
  tv_nsec :: uint64

datatype errcode = ERRCODE_INTERNAL_ERROR

datatype error = ERROR errcode string

text \<open>The two reports of the file, under the names the specification gives them.\<close>

abbreviation ClockUnavailable :: error where
  "ClockUnavailable \<equiv> ERROR ERRCODE_INTERNAL_ERROR ''could not get CLOCK_REALTIME''"

abbreviation RandomUnavailable :: error where
  "RandomUnavailable \<equiv> ERROR ERRCODE_INTERNAL_ERROR ''could not generate random values''"

subsection \<open>The host: everything the code reads besides its arguments\<close>

text \<open>
  \<^item> \<open>host_order\<close>: the byte order of the machine (\<open>WORDS_BIGENDIAN\<close> or not);
  \<^item> \<open>heap_junk\<close>: the indeterminate content of freshly \<open>palloc\<close>ed memory, by offset;
  \<^item> \<open>stack_junk\<close>: the indeterminate content of an uninitialised local, by offset;
  \<^item> \<open>realtime\<close>: what \<open>clock_gettime(CLOCK_REALTIME, &ts)\<close> stores, \<open>None\<close> when
    it returns non-zero;
  \<^item> \<open>entropy\<close>: the bytes \<open>pg_strong_random\<close> delivers, by offset into the buffer,
    \<open>None\<close> when it returns false.
\<close>

datatype byte_order = LittleEndian | BigEndian

record host =
  host_order :: byte_order
  heap_junk :: "nat \<Rightarrow> uint8"
  stack_junk :: "nat \<Rightarrow> uint8"
  realtime :: "timespec option"
  entropy :: "(nat \<Rightarrow> uint8) option"

subsection \<open>Constants of the PostgreSQL headers\<close>

text \<open>
  Modelled from the spec: the macros \<open>POSTGRES_EPOCH_JDATE\<close>, \<open>UNIX_EPOCH_JDATE\<close> and
  \<open>USECS_PER_DAY\<close> are declared in PostgreSQL's \<open>datatype/timestamp.h\<close>, which is not
  part of the sources. The specification describes their combination as the fixed number
  of microseconds between the canonical epoch and the Unix epoch, computed once from two
  fixed calendar constants. The values are the Julian day numbers of 2000-01-01 and
  1970-01-01 and the number of microseconds of a day. The product is an \<open>int64\<close>
  constant and does not overflow.
\<close>

definition POSTGRES_EPOCH_JDATE :: int where
  "POSTGRES_EPOCH_JDATE = 2451545"

definition UNIX_EPOCH_JDATE :: int where
  "UNIX_EPOCH_JDATE = 2440588"

definition USECS_PER_DAY :: int where
  "USECS_PER_DAY = 86400000000"

definition EPOCH_DIFF_USECS :: int where
  "EPOCH_DIFF_USECS = (POSTGRES_EPOCH_JDATE - UNIX_EPOCH_JDATE) * USECS_PER_DAY"

subsection \<open>Library functions the file calls\<close>

text \<open>
  \<open>pg_bswap64\<close> of \<open>port/pg_bswap.h\<close> in its portable form; \<open>pg_hton64\<close> and
  \<open>pg_ntoh64\<close> are the identity on a big-endian host and the byte swap otherwise.
\<close>

definition pg_bswap64 :: "uint64 \<Rightarrow> uint64" where
  "pg_bswap64 x =
     ((push_bit 56 x AND 0xff00000000000000) OR
      (push_bit 40 x AND 0x00ff000000000000) OR
      (push_bit 24 x AND 0x0000ff0000000000) OR
      (push_bit 8 x AND 0x000000ff00000000) OR
      (drop_bit 8 x AND 0x00000000ff000000) OR
      (drop_bit 24 x AND 0x0000000000ff0000) OR
      (drop_bit 40 x AND 0x000000000000ff00) OR
      (drop_bit 56 x AND 0x00000000000000ff))"

definition pg_hton64 :: "byte_order \<Rightarrow> uint64 \<Rightarrow> uint64" where
  "pg_hton64 bo x = (case bo of BigEndian \<Rightarrow> x | LittleEndian \<Rightarrow> pg_bswap64 x)"

definition pg_ntoh64 :: "byte_order \<Rightarrow> uint64 \<Rightarrow> uint64" where
  "pg_ntoh64 bo x = (case bo of BigEndian \<Rightarrow> x | LittleEndian \<Rightarrow> pg_bswap64 x)"

text \<open>
  The object representation of a \<open>uint64_t\<close>: its eight bytes in memory, lowest address
  first, and the value that eight bytes in memory stand for.
\<close>

definition le_bytes :: "uint64 \<Rightarrow> uint8 list" where
  "le_bytes x = map (\<lambda>i. ucast (drop_bit (8 * i) x)) [0..<8]"

definition le_value :: "uint8 list \<Rightarrow> uint64" where
  "le_value bs = foldr (\<lambda>b acc. ucast b OR push_bit 8 acc) bs 0"

definition object_bytes :: "byte_order \<Rightarrow> uint64 \<Rightarrow> uint8 list" where
  "object_bytes bo x = (case bo of LittleEndian \<Rightarrow> le_bytes x | BigEndian \<Rightarrow> rev (le_bytes x))"

definition object_value :: "byte_order \<Rightarrow> uint8 list \<Rightarrow> uint64" where
  "object_value bo bs = (case bo of LittleEndian \<Rightarrow> le_value bs | BigEndian \<Rightarrow> le_value (rev bs))"

text \<open>
  \<open>memcpy dst off src n\<close> is \<open>memcpy(&dst[off], src, n)\<close> and \<open>memset_at dst off c n\<close>
  is \<open>memset(&dst[off], c, n)\<close>: the destination with \<open>n\<close> bytes replaced from
  offset \<open>off\<close>. Every call of the file stays inside both buffers.
\<close>

definition memcpy :: "uint8 list \<Rightarrow> nat \<Rightarrow> uint8 list \<Rightarrow> nat \<Rightarrow> uint8 list" where
  "memcpy dst off src n = take off dst @ take n src @ drop (off + n) dst"

definition memset_at :: "uint8 list \<Rightarrow> nat \<Rightarrow> uint8 \<Rightarrow> nat \<Rightarrow> uint8 list" where
  "memset_at dst off c n = take off dst @ replicate n c @ drop (off + n) dst"

definition palloc :: "host \<Rightarrow> nat \<Rightarrow> uint8 list" where
  "palloc h n = map (heap_junk h) [0..<n]"

definition pg_strong_random :: "host \<Rightarrow> nat \<Rightarrow> uint8 list option" where
  "pg_strong_random h n = (case entropy h of None \<Rightarrow> None | Some f \<Rightarrow> Some (map f [0..<n]))"

section \<open>The functions of pg\_uuidv7.c\<close>

text \<open>
  The sub-millisecond fraction of \<open>uuid_generate_v7\<close>, the last operand of the
  expression handed to \<open>pg_hton64\<close>: \<open>(((uint64_t)ts.tv_nsec << 12) / 1000000) & 0x0fff\<close>.
\<close>

definition subms_fraction :: "uint64 \<Rightarrow> uint64" where
  "subms_fraction nsec = (push_bit 12 nsec div 1000000) AND 0x0fff"

text \<open>The milliseconds of \<open>uuid_generate_v7\<close>: \<open>tv_sec * 1000 + tv_nsec / 1000000\<close>.\<close>

definition clock_millis :: "timespec \<Rightarrow> uint64" where
  "clock_millis ts = tv_sec ts * 1000 + tv_nsec ts div 1000000"

definition uuid_generate_v7 :: "host \<Rightarrow> error + pg_uuid_t" where
  "uuid_generate_v7 h =
     (let uuid = palloc h UUID_LEN in
      case realtime h of
        None \<Rightarrow> Inl ClockUnavailable
      | Some ts \<Rightarrow>
          let tms = clock_millis ts;
              tms = pg_hton64 (host_order h)
                      (push_bit 16 tms OR 0x7000 OR subms_fraction (tv_nsec ts));
              uuid = memcpy uuid 0 (object_bytes (host_order h) tms) 8
          in case pg_strong_random h (UUID_LEN - 8) of
               None \<Rightarrow> Inl RandomUnavailable
             | Some rnd \<Rightarrow>
                 let uuid = memcpy uuid 8 rnd (UUID_LEN - 8);
                     uuid = uuid[8 := (uuid ! 8 AND 0x3f) OR 0x80]
                 in Inr uuid)"

text \<open>
  \<open>uuid_v7_to_uint64\<close> copies six bytes into the uninitialised local \<open>ts\<close>; the two
  bytes of \<open>ts\<close> that \<open>memcpy\<close> leaves alone keep their indeterminate content.
\<close>

definition uuid_v7_to_uint64 :: "host \<Rightarrow> pg_uuid_t \<Rightarrow> uint64" where
  "uuid_v7_to_uint64 h uuid =
     (let ts = memcpy (map (stack_junk h) [0..<8]) 0 uuid 6;
          ts = drop_bit 16 (pg_ntoh64 (host_order h) (object_value (host_order h) ts));
          ts = 1000 * ts - word_of_int EPOCH_DIFF_USECS
      in ts)"

definition uuid_v7_to_timestamptz :: "host \<Rightarrow> pg_uuid_t \<Rightarrow> uint64" where
  "uuid_v7_to_timestamptz h uuid = (let ts = uuid_v7_to_uint64 h uuid in ts)"

definition uuid_v7_to_timestamp :: "host \<Rightarrow> pg_uuid_t \<Rightarrow> uint64" where
  "uuid_v7_to_timestamp h uuid = (let ts = uuid_v7_to_uint64 h uuid in ts)"

text \<open>
  \<open>uuid_uint64_to_v7\<close> fills bytes 6 to 15 with zeros or with random bytes; the
  inner \<open>None\<close> is the branch in which \<open>pg_strong_random\<close> fails and \<open>ereport\<close> does
  not return. Both other branches go on to the two assignments that set the version and
  the variant.
\<close>

definition uuid_uint64_to_v7 :: "host \<Rightarrow> uint64 \<Rightarrow> bool \<Rightarrow> error + pg_uuid_t" where
  "uuid_uint64_to_v7 h ts zero =
     (let uuid = palloc h UUID_LEN;
          tms = (ts + word_of_int EPOCH_DIFF_USECS) div 1000;
          tms = pg_hton64 (host_order h) (push_bit 16 tms);
          uuid = memcpy uuid 0 (object_bytes (host_order h) tms) 6
      in case (if zero then Some (memset_at uuid 6 0 (UUID_LEN - 6))
               else (case pg_strong_random h (UUID_LEN - 6) of
                       None \<Rightarrow> None
                     | Some rnd \<Rightarrow> Some (memcpy uuid 6 rnd (UUID_LEN - 6)))) of
           None \<Rightarrow> Inl RandomUnavailable
         | Some uuid \<Rightarrow>
             let uuid = uuid[6 := (uuid ! 6 AND 0x0f) OR 0x70];
                 uuid = uuid[8 := (uuid ! 8 AND 0x3f) OR 0x80]
             in Inr uuid)"

text \<open>
  The SQL entry points take the timestamp and the optional flag; \<open>None\<close> is the SQL
  null of \<open>PG_ARGISNULL(1)\<close>.
\<close>

definition uuid_timestamptz_to_v7 :: "host \<Rightarrow> uint64 \<Rightarrow> bool option \<Rightarrow> error + pg_uuid_t" where
  "uuid_timestamptz_to_v7 h ts arg1 =
     (let zero = (case arg1 of None \<Rightarrow> False | Some b \<Rightarrow> b)
      in uuid_uint64_to_v7 h ts zero)"

definition uuid_timestamp_to_v7 :: "host \<Rightarrow> uint64 \<Rightarrow> bool option \<Rightarrow> error + pg_uuid_t" where
  "uuid_timestamp_to_v7 h ts arg1 =
     (let zero = (case arg1 of None \<Rightarrow> False | Some b \<Rightarrow> b)
      in uuid_uint64_to_v7 h ts zero)"

section \<open>Notions of the specification\<close>

text \<open>A byte sequence read as a big-endian unsigned integer.\<close>

definition big_endian :: "uint8 list \<Rightarrow> nat" where
  "big_endian bs = foldl (\<lambda>acc b. 256 * acc + unat b) 0 bs"

text \<open>
  The reference formula of the specification for the 12-bit fraction:
  \<open>(nanoseconds_within_ms * 4096) / 1_000_000\<close>, truncating, where the nanoseconds
  within the millisecond are the nanoseconds modulo \<open>1_000_000\<close>.
\<close>

definition fraction_reference :: "nat \<Rightarrow> nat" where
  "fraction_reference n = ((n mod 1000000) * 4096) div 1000000"

text \<open>
  The number of whole milliseconds since the Unix epoch of a clock reading, as a
  mathematical integer, and the readings \<open>clock_gettime\<close> can deliver: nanoseconds
  from \<open>0\<close> to \<open>999_999_999\<close>.
\<close>

definition unix_millis :: "timespec \<Rightarrow> int" where
  "unix_millis ts = sint (tv_sec ts) * 1000 + sint (tv_nsec ts) div 1000000"

definition timespec_valid :: "timespec \<Rightarrow> bool" where
  "timespec_valid ts \<longleftrightarrow> 0 \<le> sint (tv_nsec ts) \<and> sint (tv_nsec ts) \<le> 999999999"

text \<open>Lexicographic comparison of byte sequences, bytes compared as unsigned.\<close>

fun lex_less :: "uint8 list \<Rightarrow> uint8 list \<Rightarrow> bool" where
  "lex_less [] [] = False"
| "lex_less [] (y # ys) = True"
| "lex_less (x # xs) [] = False"
| "lex_less (x # xs) (y # ys) = (x < y \<or> (x = y \<and> lex_less xs ys))"

section \<open>Sample inputs\<close>

text \<open>
  Two hosts of opposite byte order with different indeterminate memory and the same
  random bytes, a host whose random source fails, and two UUIDs with the same first six
  bytes.
\<close>

definition sample_host :: host where
  "sample_host =
     \<lparr>host_order = LittleEndian, heap_junk = (\<lambda>i. 0xAA), stack_junk = (\<lambda>i. 0x55),
      realtime = Some \<lparr>tv_sec = 1700000000, tv_nsec = 123456789\<rparr>,
      entropy = Some (\<lambda>i. 0xF0 + of_nat i)\<rparr>"

definition sample_host_be :: host where
  "sample_host_be =
     \<lparr>host_order = BigEndian, heap_junk = (\<lambda>i. 0x11), stack_junk = (\<lambda>i. 0xEE),
      realtime = Some \<lparr>tv_sec = 1700000000, tv_nsec = 124000000\<rparr>,
      entropy = Some (\<lambda>i. 0xF0 + of_nat i)\<rparr>"

definition failing_host :: host where
  "failing_host =
     \<lparr>host_order = LittleEndian, heap_junk = (\<lambda>i. 0xAA), stack_junk = (\<lambda>i. 0x55),
      realtime = Some \<lparr>tv_sec = 1700000000, tv_nsec = 123456789\<rparr>,
      entropy = None\<rparr>"

definition sample_uuid :: pg_uuid_t where
  "sample_uuid = [0x01, 0x8E, 0x38, 0x3B, 0x3C, 0x80, 0x7A, 0xBC,
                  0x9D, 0xEF, 0x01, 0x23, 0x45, 0x67, 0x89, 0xAB]"

definition sample_uuid_other :: pg_uuid_t where
  "sample_uuid_other = [0x01, 0x8E, 0x38, 0x3B, 0x3C, 0x80, 0x00, 0x00,
                        0xFF, 0xFF, 0xFF, 0xFF, 0xFF, 0xFF, 0xFF, 0xFF]"

section \<open>Bytes of a 64-bit word\<close>

lemma upt8: "[0..<8] = [0, 1, 2, 3, 4, 5, 6, 7::nat]"
  by (simp add: upt_rec)

lemma le_bytes_list:
  "le_bytes x = [ucast x, ucast (drop_bit 8 x), ucast (drop_bit 16 x), ucast (drop_bit 24 x),
                 ucast (drop_bit 32 x), ucast (drop_bit 40 x), ucast (drop_bit 48 x), ucast (drop_bit 56 x)]"
  by (simp add: le_bytes_def upt8)

lemma length_le_bytes: "length (le_bytes x) = 8"
  by (simp add: le_bytes_def)

lemma byte_masks:
  "(0xff00000000000000 :: uint64) = push_bit 56 (mask 8)"
  "(0x00ff000000000000 :: uint64) = push_bit 48 (mask 8)"
  "(0x0000ff0000000000 :: uint64) = push_bit 40 (mask 8)"
  "(0x000000ff00000000 :: uint64) = push_bit 32 (mask 8)"
  "(0x00000000ff000000 :: uint64) = push_bit 24 (mask 8)"
  "(0x0000000000ff0000 :: uint64) = push_bit 16 (mask 8)"
  "(0x000000000000ff00 :: uint64) = push_bit 8 (mask 8)"
  "(0x00000000000000ff :: uint64) = mask 8"
  by (simp_all add: push_bit_eq_mult mask_eq_exp_minus_1)

lemma drop_and_mask:
  "drop_bit j (x :: uint64) AND push_bit k (mask m) = push_bit k (take_bit m (drop_bit (j + k) x))"
  by (rule bit_word_eqI) (auto simp add: bit_simps ac_simps)

lemma push_and_mask:
  "j \<le> k \<Longrightarrow>
   push_bit j (x :: uint64) AND push_bit k (mask m) = push_bit k (take_bit m (drop_bit (k - j) x))"
  by (rule bit_word_eqI) (auto simp add: bit_simps ac_simps)

lemma pg_bswap64_fields:
  "pg_bswap64 x =
     (push_bit 56 (take_bit 8 x) OR
      push_bit 48 (take_bit 8 (drop_bit 8 x)) OR
      push_bit 40 (take_bit 8 (drop_bit 16 x)) OR
      push_bit 32 (take_bit 8 (drop_bit 24 x)) OR
      push_bit 24 (take_bit 8 (drop_bit 32 x)) OR
      push_bit 16 (take_bit 8 (drop_bit 40 x)) OR
      push_bit 8 (take_bit 8 (drop_bit 48 x)) OR
      take_bit 8 (drop_bit 56 x))"
  unfolding pg_bswap64_def byte_masks
  using drop_and_mask [of 56 x 0 8]
  by (simp add: drop_and_mask push_and_mask)

lemma le_bytes_bswap: "le_bytes (pg_bswap64 x) = rev (le_bytes x)"
  unfolding le_bytes_list pg_bswap64_fields
  apply simp
  apply (intro conjI)
  by (rule bit_word_eqI, simp add: bit_simps)+

lemma length8E:
  assumes "length (bs :: 'a list) = 8"
  obtains b0 b1 b2 b3 b4 b5 b6 b7 where "bs = [b0, b1, b2, b3, b4, b5, b6, b7]"
  using assms by (auto simp add: numeral_eq_Suc length_Suc_conv)

lemma le_value_list:
  "le_value [b0, b1, b2, b3, b4, b5, b6, b7] =
     ucast b0 OR push_bit 8 (ucast b1) OR push_bit 16 (ucast b2) OR push_bit 24 (ucast b3) OR
     push_bit 32 (ucast b4) OR push_bit 40 (ucast b5) OR push_bit 48 (ucast b6) OR
     push_bit 56 (ucast b7)"
  by (simp add: le_value_def push_bit_or)

lemma le_value_bytes: "le_value (le_bytes x) = x"
  unfolding le_bytes_list le_value_list
proof (rule bit_word_eqI)
  fix n :: nat
  assume "n < LENGTH(64)"
  then consider "n < 8" | "8 \<le> n \<and> n < 16" | "16 \<le> n \<and> n < 24" | "24 \<le> n \<and> n < 32"
    | "32 \<le> n \<and> n < 40" | "40 \<le> n \<and> n < 48" | "48 \<le> n \<and> n < 56" | "56 \<le> n \<and> n < 64"
    by fastforce
  then show "bit (ucast (ucast x :: uint8) OR push_bit 8 (ucast (ucast (drop_bit 8 x) :: uint8)) OR
         push_bit 16 (ucast (ucast (drop_bit 16 x) :: uint8)) OR
         push_bit 24 (ucast (ucast (drop_bit 24 x) :: uint8)) OR
         push_bit 32 (ucast (ucast (drop_bit 32 x) :: uint8)) OR
         push_bit 40 (ucast (ucast (drop_bit 40 x) :: uint8)) OR
         push_bit 48 (ucast (ucast (drop_bit 48 x) :: uint8)) OR
         push_bit 56 (ucast (ucast (drop_bit 56 x) :: uint8)) :: uint64) n = bit x n"
    by cases (auto simp add: bit_simps)
qed

lemma le_bytes_value: "length bs = 8 \<Longrightarrow> le_bytes (le_value bs) = bs"
  apply (erule length8E)
  apply (simp only: le_value_list le_bytes_list)
  apply simp
  apply (intro conjI)
  by (rule bit_word_eqI, auto simp add: bit_simps dest: bit_imp_le_length)+

lemma bswap_le_value: "length bs = 8 \<Longrightarrow> pg_bswap64 (le_value bs) = le_value (rev bs)"
proof -
  assume len: "length bs = 8"
  have "le_value (le_bytes (pg_bswap64 (le_value bs))) = le_value (rev bs)"
    by (simp add: le_bytes_bswap le_bytes_value len)
  then show ?thesis
    by (simp add: le_value_bytes)
qed

text \<open>Storing a converted value gives the big-endian bytes on either host.\<close>

lemma object_bytes_hton: "object_bytes bo (pg_hton64 bo x) = rev (le_bytes x)"
  by (cases bo) (simp_all add: object_bytes_def pg_hton64_def le_bytes_bswap)

lemma ntoh_object_value:
  "length bs = 8 \<Longrightarrow> pg_ntoh64 bo (object_value bo bs) = le_value (rev bs)"
  by (cases bo) (simp_all add: object_value_def pg_ntoh64_def bswap_le_value)

section \<open>Bytes as numbers\<close>

lemma foldl_be_shift:
  "foldl (\<lambda>acc b. 256 * acc + unat (b :: uint8)) a bs =
     a * 256 ^ length bs + foldl (\<lambda>acc b. 256 * acc + unat b) 0 bs"
proof (induction bs arbitrary: a)
  case Nil
  show ?case by simp
next
  case (Cons b bs)
  have "foldl (\<lambda>acc b. 256 * acc + unat b) a (b # bs) =
          (256 * a + unat b) * 256 ^ length bs + foldl (\<lambda>acc b. 256 * acc + unat b) 0 bs"
    using Cons.IH [of "256 * a + unat b"] by simp
  moreover have "foldl (\<lambda>acc b. 256 * acc + unat b) 0 (b # bs) =
          unat b * 256 ^ length bs + foldl (\<lambda>acc b. 256 * acc + unat b) 0 bs"
    using Cons.IH [of "unat b"] by simp
  ultimately show ?case
    by (simp add: algebra_simps)
qed

lemma big_endian_Nil: "big_endian [] = 0"
  by (simp add: big_endian_def)

lemma big_endian_append:
  "big_endian (xs @ ys) = big_endian xs * 256 ^ length ys + big_endian ys"
  unfolding big_endian_def foldl_append
  by (rule foldl_be_shift)

lemma big_endian_single: "big_endian [b] = unat b"
  by (simp add: big_endian_def)

lemma big_endian_snoc: "big_endian (xs @ [b]) = 256 * big_endian xs + unat b"
  by (simp add: big_endian_def)

lemma unat_byte_less: "unat (b :: uint8) < 256"
  using unsigned_less [of b, where ?'a = nat] by simp

lemma big_endian_bound: "big_endian bs < 256 ^ length bs"
proof (induction bs rule: rev_induct)
  case Nil
  show ?case by (simp add: big_endian_Nil)
next
  case (snoc b bs)
  have "256 * big_endian bs + unat b < 256 * (big_endian bs + 1)"
    using unat_byte_less [of b] by simp
  also have "\<dots> \<le> 256 * 256 ^ length bs"
    using snoc.IH by (intro mult_le_mono2) simp
  finally show ?case
    by (simp add: big_endian_snoc)
qed

lemma unat_byte_or_shift:
  assumes "unat (v :: uint64) < 2 ^ 56"
  shows "unat (ucast (b :: uint8) OR push_bit 8 v) = unat b + 256 * unat v"
proof -
  have disj: "ucast b + push_bit 8 v = (ucast b OR push_bit 8 v :: uint64)"
    by (rule disjunctive_add) (auto simp add: bit_simps dest: bit_imp_le_length)
  have shift: "unat (push_bit 8 v) = 256 * unat v"
    using assms by (simp add: push_bit_eq_mult unat_word_ariths)
  have "unat b < 2 ^ 64"
    using unat_byte_less [of b] by simp
  then have byte: "unat (ucast b :: uint64) = unat b"
    by (simp add: unsigned_ucast_eq take_bit_nat_eq_self)
  have "unat (ucast b :: uint64) + unat (push_bit 8 v) < 2 ^ LENGTH(64)"
    using assms unat_byte_less [of b] by (simp add: shift byte)
  then have "unat (ucast b + push_bit 8 v :: uint64) = unat b + 256 * unat v"
    by (simp add: unat_add_lem [THEN iffD1] shift byte)
  then show ?thesis
    by (simp add: disj)
qed

lemma le_value_Cons: "le_value (b # bs) = ucast b OR push_bit 8 (le_value bs)"
  by (simp add: le_value_def)

lemma unat_le_value: "length bs \<le> 8 \<Longrightarrow> unat (le_value bs) = big_endian (rev bs)"
proof (induction bs)
  case Nil
  show ?case by (simp add: le_value_def big_endian_Nil)
next
  case (Cons b bs)
  then have len: "length bs \<le> 7" and IH: "unat (le_value bs) = big_endian (rev bs)"
    by simp_all
  have "big_endian (rev bs) < 256 ^ length (rev bs)"
    by (rule big_endian_bound)
  also have "\<dots> \<le> (256 :: nat) ^ 7"
    using len by (intro power_increasing) simp_all
  finally have "unat (le_value bs) < 2 ^ 56"
    by (simp add: IH)
  then show ?case
    by (simp add: le_value_Cons unat_byte_or_shift IH big_endian_snoc)
qed

lemma big_endian_le_bytes: "big_endian (rev (le_bytes x)) = unat x"
  using unat_le_value [of "le_bytes x"] by (simp add: length_le_bytes le_value_bytes)

lemma big_endian_take:
  assumes "n \<le> length bs"
  shows "big_endian (take n bs) = big_endian bs div 256 ^ (length bs - n)"
proof -
  have "big_endian bs = big_endian (take n bs) * 256 ^ length (drop n bs) + big_endian (drop n bs)"
    using big_endian_append [of "take n bs" "drop n bs"] by simp
  moreover have "big_endian (drop n bs) < 256 ^ length (drop n bs)"
    by (rule big_endian_bound)
  ultimately show ?thesis
    by simp
qed

section \<open>What the three functions compute\<close>

lemma length_palloc: "length (palloc h n) = n"
  by (simp add: palloc_def)

lemma upt10: "[0..<10] = [0, 1, 2, 3, 4, 5, 6, 7, 8, 9::nat]"
  by (simp add: upt_rec)

lemma replicate10: "replicate 10 x = [x, x, x, x, x, x, x, x, x, x]"
  by (simp add: numeral_eq_Suc)

lemma unat_drop16: "unat (drop_bit 16 (w :: uint64)) = unat w div 2 ^ 16"
  by (subst unat_drop_bit_eq) (simp add: drop_bit_eq_div)

lemma sint_word_of_int_64:
  "- (2 ^ 63) \<le> k \<Longrightarrow> k < 2 ^ 63 \<Longrightarrow> sint (word_of_int k :: uint64) = k"
  by (simp add: sint_sbintrunc' signed_take_bit_int_eq_self)

lemma decode_millis:
  assumes "6 \<le> length u"
  shows "unat (drop_bit 16 (pg_ntoh64 bo (object_value bo (memcpy (map j [0..<8]) 0 u 6))))
           = big_endian (take 6 u)"
proof -
  let ?mem = "memcpy (map j [0..<8]) 0 u 6"
  have len: "length ?mem = 8"
    using assms by (simp add: memcpy_def)
  have fst: "take 6 ?mem = take 6 u"
    using assms by (simp add: memcpy_def)
  have "unat (drop_bit 16 (pg_ntoh64 bo (object_value bo ?mem))) = big_endian ?mem div 2 ^ 16"
    by (simp add: ntoh_object_value len unat_drop16 unat_le_value)
  also have "\<dots> = big_endian (take 6 ?mem)"
    using big_endian_take [of 6 ?mem] by (simp add: len)
  finally show ?thesis
    by (simp only: fst)
qed

lemma uuid_v7_to_uint64_eq:
  assumes "6 \<le> length u"
  shows "uuid_v7_to_uint64 h u =
           1000 * word_of_nat (big_endian (take 6 u)) - word_of_int EPOCH_DIFF_USECS"
proof -
  let ?m = "drop_bit 16 (pg_ntoh64 (host_order h)
               (object_value (host_order h) (memcpy (map (stack_junk h) [0..<8]) 0 u 6)))"
  have "word_of_nat (unat ?m) = ?m"
    by simp
  then have "?m = word_of_nat (big_endian (take 6 u))"
    by (simp only: decode_millis [OF assms])
  then show ?thesis
    by (simp add: uuid_v7_to_uint64_def Let_def)
qed

lemma EPOCH_DIFF_USECS_value: "EPOCH_DIFF_USECS = 946684800000000"
  by (simp add: EPOCH_DIFF_USECS_def POSTGRES_EPOCH_JDATE_def UNIX_EPOCH_JDATE_def
      USECS_PER_DAY_def)

lemma sint_decode:
  assumes "6 \<le> length u"
  shows "sint (uuid_v7_to_uint64 h u) = 1000 * int (big_endian (take 6 u)) - EPOCH_DIFF_USECS"
proof -
  have "big_endian (take 6 u) < 256 ^ length (take 6 u)"
    by (rule big_endian_bound)
  then have bound: "int (big_endian (take 6 u)) < 2 ^ 48"
    using assms by simp
  define k where "k = 1000 * int (big_endian (take 6 u)) - EPOCH_DIFF_USECS"
  have "uuid_v7_to_uint64 h u = word_of_int k"
    by (simp add: uuid_v7_to_uint64_eq [OF assms] k_def)
  moreover have "- (2 ^ 63) \<le> k"
    by (simp add: EPOCH_DIFF_USECS_value k_def)
  moreover have "k < 2 ^ 63"
    using bound by (simp add: EPOCH_DIFF_USECS_value k_def)
  ultimately have "sint (uuid_v7_to_uint64 h u) = k"
    by (simp only: sint_word_of_int_64)
  then show ?thesis
    by (simp only: k_def)
qed

lemma encode_zero:
  "uuid_uint64_to_v7 h ts True =
     Inr (take 6 (rev (le_bytes (push_bit 16 ((ts + word_of_int EPOCH_DIFF_USECS) div 1000))))
          @ [0x70, 0, 0x80, 0, 0, 0, 0, 0, 0, 0])"
  by (simp add: uuid_uint64_to_v7_def Let_def object_bytes_hton memcpy_def memset_at_def
      UUID_LEN_def length_palloc length_le_bytes replicate10 list_update_append nth_append)

lemma encode_random:
  assumes "entropy h = Some f"
  shows "uuid_uint64_to_v7 h ts False =
     Inr (take 6 (rev (le_bytes (push_bit 16 ((ts + word_of_int EPOCH_DIFF_USECS) div 1000))))
          @ [(f 0 AND 0x0f) OR 0x70, f 1, (f 2 AND 0x3f) OR 0x80, f 3, f 4, f 5, f 6, f 7, f 8, f 9])"
  by (simp add: uuid_uint64_to_v7_def Let_def object_bytes_hton memcpy_def pg_strong_random_def
      assms UUID_LEN_def length_palloc length_le_bytes upt10 list_update_append nth_append)

lemma encode_fail:
  assumes "entropy h = None"
  shows "uuid_uint64_to_v7 h ts False = Inl RandomUnavailable"
  by (simp add: uuid_uint64_to_v7_def Let_def pg_strong_random_def assms)

lemma generate_ok:
  assumes "realtime h = Some t" and "entropy h = Some f"
  shows "uuid_generate_v7 h =
     Inr (rev (le_bytes (push_bit 16 (clock_millis t) OR 0x7000 OR subms_fraction (tv_nsec t)))
          @ [(f 0 AND 0x3f) OR 0x80, f 1, f 2, f 3, f 4, f 5, f 6, f 7])"
  by (simp add: uuid_generate_v7_def Let_def object_bytes_hton memcpy_def pg_strong_random_def
      assms UUID_LEN_def length_palloc length_le_bytes upt8 list_update_append nth_append)

lemma generate_cases:
  "uuid_generate_v7 h =
     (case realtime h of None \<Rightarrow> Inl ClockUnavailable
      | Some t \<Rightarrow> (case entropy h of None \<Rightarrow> Inl RandomUnavailable
          | Some f \<Rightarrow> Inr (rev (le_bytes (push_bit 16 (clock_millis t) OR 0x7000 OR
                                            subms_fraction (tv_nsec t)))
                  @ [(f 0 AND 0x3f) OR 0x80, f 1, f 2, f 3, f 4, f 5, f 6, f 7])))"
proof (cases "realtime h")
  case None
  then show ?thesis by (simp add: uuid_generate_v7_def Let_def)
next
  case (Some t)
  show ?thesis
  proof (cases "entropy h")
    case None
    with Some show ?thesis
      by (simp add: uuid_generate_v7_def Let_def pg_strong_random_def)
  next
    case (Some f)
    with \<open>realtime h = Some t\<close> show ?thesis
      by (simp add: generate_ok)
  qed
qed

lemma encode_cases:
  "uuid_uint64_to_v7 h ts zero =
     (if zero then
        Inr (take 6 (rev (le_bytes (push_bit 16 ((ts + word_of_int EPOCH_DIFF_USECS) div 1000))))
             @ [0x70, 0, 0x80, 0, 0, 0, 0, 0, 0, 0])
      else (case entropy h of None \<Rightarrow> Inl RandomUnavailable
        | Some f \<Rightarrow>
            Inr (take 6 (rev (le_bytes (push_bit 16 ((ts + word_of_int EPOCH_DIFF_USECS) div 1000))))
                 @ [(f 0 AND 0x0f) OR 0x70, f 1, (f 2 AND 0x3f) OR 0x80,
                    f 3, f 4, f 5, f 6, f 7, f 8, f 9])))"
proof (cases zero)
  case True
  then show ?thesis by (simp add: encode_zero)
next
  case False
  then show ?thesis
    by (cases "entropy h") (simp_all add: encode_fail encode_random)
qed

lemma encode_same_entropy:
  "entropy h = entropy h' \<Longrightarrow> uuid_uint64_to_v7 h ts zero = uuid_uint64_to_v7 h' ts zero"
  by (simp add: encode_cases)

section \<open>Version and variant bits\<close>

lemma version_nibble: "drop_bit 4 ((x AND 0x0f) OR 0x70 :: uint8) = 7"
proof -
  have m: "(0x0f :: uint8) = mask 4" "(0x70 :: uint8) = push_bit 4 (mask 3)" "(7 :: uint8) = mask 3"
    by (simp_all add: push_bit_eq_mult mask_eq_exp_minus_1)
  show ?thesis
    unfolding m by (rule bit_word_eqI) (auto simp add: bit_simps)
qed

lemma variant_bits: "drop_bit 6 ((x AND 0x3f) OR 0x80 :: uint8) = 2"
proof -
  have m: "(0x3f :: uint8) = mask 6" "(0x80 :: uint8) = push_bit 7 1" "(2 :: uint8) = push_bit 1 1"
    by (simp_all add: push_bit_eq_mult mask_eq_exp_minus_1)
  show ?thesis
    unfolding m by (rule bit_word_eqI) (auto simp add: bit_simps)
qed

lemma generated_version_nibble:
  "drop_bit 4 (ucast (drop_bit 8 (push_bit 16 m OR 0x7000 OR (x AND 0x0fff) :: uint64)) :: uint8) = 7"
proof -
  have m: "(0x7000 :: uint64) = push_bit 12 (mask 3)" "(0x0fff :: uint64) = mask 12"
    "(7 :: uint8) = mask 3"
    by (simp_all add: push_bit_eq_mult mask_eq_exp_minus_1)
  show ?thesis
    unfolding m by (rule bit_word_eqI) (auto simp add: bit_simps)
qed

section \<open>The fraction and the timestamp prefix as numbers\<close>

lemma fraction_arith:
  fixes n :: nat
  shows "(n * 4096 div 1000000) mod 4096 = (n mod 1000000) * 4096 div 1000000"
proof -
  define q r where "q = n div 1000000" and "r = n mod 1000000"
  have n: "n = r + q * 1000000"
    by (simp add: q_def r_def)
  have "r < 1000000"
    by (simp add: r_def)
  then have small: "r * 4096 div 1000000 < 4096"
    by (simp add: less_mult_imp_div_less)
  have "n * 4096 = r * 4096 + (q * 4096) * 1000000"
    by (simp add: n algebra_simps)
  then have "n * 4096 div 1000000 = r * 4096 div 1000000 + q * 4096"
    by simp
  then have "(n * 4096 div 1000000) mod 4096 = (r * 4096 div 1000000) mod 4096"
    by simp
  with small show ?thesis
    by (simp add: r_def)
qed

lemma unat_low12: "unat (y AND 0x0fff :: uint64) = unat y mod 4096"
proof -
  have "(0x0fff :: uint64) = mask 12"
    by (simp add: mask_eq_exp_minus_1)
  then have "y AND 0x0fff = take_bit 12 y"
    by (simp only: take_bit_eq_mask)
  then show ?thesis
    by (simp add: take_bit_eq_mod unat_mod)
qed

lemma big_endian_top6: "big_endian (take 6 (rev (le_bytes y))) = unat y div 2 ^ 16"
  using big_endian_take [of 6 "rev (le_bytes y)"]
  by (simp add: length_le_bytes big_endian_le_bytes)

lemma unat_shift16_div: "unat (push_bit 16 (m :: uint64)) div 2 ^ 16 = unat m mod 2 ^ 48"
proof -
  have "unat (push_bit 16 m) = unat m * 2 ^ 16 mod (2 ^ 48 * 2 ^ 16)"
    by (simp add: push_bit_eq_mult unat_word_ariths)
  also have "\<dots> = (unat m mod 2 ^ 48) * 2 ^ 16"
    by (rule mod_mult_mult2)
  finally show ?thesis
    by simp
qed

lemma stamp_value: "big_endian (take 6 (rev (le_bytes (push_bit 16 m)))) = unat m mod 2 ^ 48"
  by (simp only: big_endian_top6 unat_shift16_div)

lemma uint_plus_epoch:
  "uint (ts + word_of_int k :: uint64) = (sint ts + k) mod 2 ^ 64"
proof -
  have "uint (ts + word_of_int k) = (uint ts + uint (word_of_int k :: uint64)) mod 2 ^ 64"
    by (simp add: uint_word_ariths)
  also have "\<dots> = (sint ts mod 2 ^ 64 + k mod 2 ^ 64) mod 2 ^ 64"
    by (simp add: uint_sint [of ts] uint_word_of_int take_bit_eq_mod)
  also have "\<dots> = (sint ts + k) mod 2 ^ 64"
    by (rule mod_add_eq)
  finally show ?thesis .
qed

lemma stamp_of_timestamp:
  "int (big_endian (take 6 (rev (le_bytes
      (push_bit 16 ((ts + word_of_int EPOCH_DIFF_USECS) div 1000)))))) =
   ((sint ts + EPOCH_DIFF_USECS) mod 2 ^ 64 div 1000) mod 2 ^ 48"
proof -
  let ?m = "(ts + word_of_int EPOCH_DIFF_USECS) div 1000"
  have "int (unat ?m mod 2 ^ 48) = int (unat ?m) mod 2 ^ 48"
    by (simp add: zmod_int)
  also have "int (unat ?m) = uint ?m"
    by simp
  also have "uint ?m = (sint ts + EPOCH_DIFF_USECS) mod 2 ^ 64 div 1000"
    by (simp add: uint_div uint_plus_epoch)
  finally show ?thesis
    by (simp only: stamp_value)
qed

lemma sint_nonneg_uint: "0 \<le> sint (w :: uint64) \<Longrightarrow> uint w = sint w"
proof -
  assume "0 \<le> sint w"
  moreover have "sint w < 2 ^ 63"
    using sint_lt [of w] by simp
  ultimately have "sint w mod 2 ^ 64 = sint w"
    by simp
  then show ?thesis
    by (simp add: uint_sint [of w] take_bit_eq_mod)
qed

lemma clock_millis_value:
  assumes "timespec_valid t" and "0 \<le> unix_millis t" and "unix_millis t < 2 ^ 48"
  shows "uint (clock_millis t) = unix_millis t"
proof -
  define s n where "s = sint (tv_sec t)" and "n = sint (tv_nsec t)"
  have n: "0 \<le> n" "n \<le> 999999999"
    using assms(1) by (simp_all add: timespec_valid_def n_def)
  have ms: "0 \<le> s * 1000 + n div 1000000" "s * 1000 + n div 1000000 < 281474976710656"
    using assms(2,3) by (simp_all add: unix_millis_def s_def n_def)
  have frac: "0 \<le> n div 1000000" "n div 1000000 \<le> 999"
    using n by simp_all
  have s: "0 \<le> s"
    using ms(1) frac(2) by arith
  have us: "uint (tv_sec t) = s"
    using s by (simp add: s_def sint_nonneg_uint)
  have un: "uint (tv_nsec t) = n"
    using n(1) by (simp add: n_def sint_nonneg_uint)
  have "uint (tv_sec t) * uint (1000 :: uint64) < 2 ^ LENGTH(64)"
    using ms frac s by (simp add: us)
  then have mul: "uint (tv_sec t * 1000) = s * 1000"
    by (simp add: uint_mult_lem [THEN iffD1] us)
  have dv: "uint (tv_nsec t div 1000000) = n div 1000000"
    by (simp add: uint_div un)
  have "uint (tv_sec t * 1000) + uint (tv_nsec t div 1000000) < 2 ^ LENGTH(64)"
    using ms by (simp add: mul dv)
  then have "uint (tv_sec t * 1000 + tv_nsec t div 1000000) = s * 1000 + n div 1000000"
    by (simp add: uint_add_lem [THEN iffD1] mul dv)
  then show ?thesis
    by (simp add: clock_millis_def unix_millis_def s_def n_def)
qed

lemma drop16_generated:
  "drop_bit 16 (push_bit 16 m OR 0x7000 OR (x AND 0x0fff) :: uint64) = drop_bit 16 (push_bit 16 m)"
proof -
  have m: "(0x7000 :: uint64) = push_bit 12 (mask 3)" "(0x0fff :: uint64) = mask 12"
    by (simp_all add: push_bit_eq_mult mask_eq_exp_minus_1)
  show ?thesis
    unfolding m by (rule bit_word_eqI) (auto simp add: bit_simps)
qed

lemma generated_stamp:
  "big_endian (take 6 (rev (le_bytes (push_bit 16 m OR 0x7000 OR subms_fraction x)))) =
     unat m mod 2 ^ 48"
proof -
  let ?v = "push_bit 16 m OR 0x7000 OR subms_fraction x"
  have "unat ?v div 2 ^ 16 = unat (drop_bit 16 ?v)"
    by (simp only: unat_drop16)
  also have "drop_bit 16 ?v = drop_bit 16 (push_bit 16 m)"
    unfolding subms_fraction_def by (rule drop16_generated)
  also have "unat (drop_bit 16 (push_bit 16 m)) = unat m mod 2 ^ 48"
    by (simp only: unat_drop16 unat_shift16_div)
  finally show ?thesis
    by (simp only: big_endian_top6)
qed

section \<open>Lexicographic order and big-endian values\<close>

lemma big_endian_Cons: "big_endian (x # xs) = unat x * 256 ^ length xs + big_endian xs"
  using big_endian_append [of "[x]" xs] by (simp add: big_endian_single)

lemma lex_less_prefix:
  assumes "length a = length b" and "big_endian a < big_endian b"
  shows "lex_less (a @ r1) (b @ r2)"
  using assms
proof (induction a b rule: list_induct2)
  case Nil
  then show ?case by simp
next
  case (Cons x xs y ys)
  let ?M = "(256 :: nat) ^ length ys"
  have A: "big_endian xs < ?M"
    using big_endian_bound [of xs] Cons.hyps by simp
  have B: "big_endian ys < ?M"
    by (rule big_endian_bound)
  have less: "unat x * ?M + big_endian xs < unat y * ?M + big_endian ys"
    using Cons.prems Cons.hyps by (simp add: big_endian_Cons)
  have "unat x \<le> unat y"
  proof (rule ccontr)
    assume "\<not> unat x \<le> unat y"
    then have "Suc (unat y) \<le> unat x"
      by simp
    then have "Suc (unat y) * ?M \<le> unat x * ?M"
      by (rule mult_le_mono1)
    with B less show False
      by simp
  qed
  then consider "unat x < unat y" | "unat x = unat y"
    by linarith
  then show ?case
  proof cases
    case 1
    then show ?thesis
      by (simp add: word_less_nat_alt)
  next
    case 2
    with less have "big_endian xs < big_endian ys"
      by simp
    then have "lex_less (xs @ r1) (ys @ r2)"
      by (rule Cons.IH)
    moreover from 2 have "x = y"
      by (rule unsigned_word_eqI)
    ultimately show ?thesis
      by simp
  qed
qed

section \<open>The claims\<close>

subsection \<open>C1\<close>

text \<open>
  Claim C1 (round trip, millisecond floor). For every signed 64-bit timestamp \<open>ts\<close>
  whose epoch-adjusted millisecond value \<open>floor((ts + EPOCH_DIFF_USECS) / 1000)\<close> lies in
  the 48-bit field, encoding with \<open>zero = true\<close> succeeds and decoding the result, on any
  host, gives \<open>1000 * floor((ts + EPOCH_DIFF_USECS) / 1000) - EPOCH_DIFF_USECS\<close>.
\<close>

theorem round_trip_millisecond_floor:
  assumes "0 \<le> (sint ts + EPOCH_DIFF_USECS) div 1000"
    and "(sint ts + EPOCH_DIFF_USECS) div 1000 < 2 ^ 48"
  shows "\<exists>u. uuid_uint64_to_v7 h ts True = Inr u \<and>
           sint (uuid_v7_to_uint64 h' u) =
             1000 * ((sint ts + EPOCH_DIFF_USECS) div 1000) - EPOCH_DIFF_USECS"
proof -
  define k where "k = sint ts + EPOCH_DIFF_USECS"
  let ?stamp = "take 6 (rev (le_bytes (push_bit 16 ((ts + word_of_int EPOCH_DIFF_USECS) div 1000))))"
  let ?u = "?stamp @ [0x70, 0, 0x80, 0, 0, 0, 0, 0, 0, 0]"
  have nonneg: "0 \<le> k"
    using assms(1) by (simp add: k_def pos_imp_zdiv_nonneg_iff)
  have "k div 1000 < 281474976710656"
    using assms(2) by (simp add: k_def)
  then have upper: "k < 281474976710656000"
    by arith
  have "k mod 2 ^ 64 = k"
    using nonneg upper by simp
  moreover have "k div 1000 mod 2 ^ 48 = k div 1000"
    using assms by (simp add: k_def)
  ultimately have stamp: "int (big_endian ?stamp) = k div 1000"
    by (simp add: stamp_of_timestamp k_def)
  have fst: "take 6 ?u = ?stamp"
    by (simp add: length_le_bytes)
  have "sint (uuid_v7_to_uint64 h' ?u) = 1000 * int (big_endian (take 6 ?u)) - EPOCH_DIFF_USECS"
    by (rule sint_decode) (simp add: length_le_bytes)
  then have "sint (uuid_v7_to_uint64 h' ?u) = 1000 * (k div 1000) - EPOCH_DIFF_USECS"
    by (simp only: fst stamp)
  moreover have "uuid_uint64_to_v7 h ts True = Inr ?u"
    by (rule encode_zero)
  ultimately show ?thesis
    unfolding k_def by blast
qed

text \<open>The statement at sample inputs.\<close>

theorem round_trip_millisecond_floor_witness:
  "0 \<le> (sint (753315200000123 :: uint64) + EPOCH_DIFF_USECS) div 1000 \<and>
   (sint (753315200000123 :: uint64) + EPOCH_DIFF_USECS) div 1000 < 2 ^ 48 \<and>
   (\<exists>u. uuid_uint64_to_v7 sample_host 753315200000123 True = Inr u \<and>
        sint (uuid_v7_to_uint64 sample_host_be u) = 753315200000000)"
proof -
  have lower: "0 \<le> (sint (753315200000123 :: uint64) + EPOCH_DIFF_USECS) div 1000"
    by (simp add: EPOCH_DIFF_USECS_value)
  have upper: "(sint (753315200000123 :: uint64) + EPOCH_DIFF_USECS) div 1000 < 2 ^ 48"
    by (simp add: EPOCH_DIFF_USECS_value)
  from round_trip_millisecond_floor [OF lower upper, of sample_host sample_host_be] lower upper
  show ?thesis
    by (simp add: EPOCH_DIFF_USECS_value)
qed

subsection \<open>C2\<close>

text \<open>
  Claim C2 (version and variant). Every UUID returned by \<open>uuid_generate_v7\<close> and every
  UUID returned by \<open>uuid_uint64_to_v7\<close>, with either value of the flag, has 16 bytes, the
  top nibble of byte 6 is \<open>0111\<close> and the top two bits of byte 8 are \<open>10\<close>.
\<close>

theorem version_variant_bits:
  assumes "uuid_generate_v7 h = Inr u \<or> uuid_uint64_to_v7 h ts zero = Inr u"
  shows "length u = 16 \<and> drop_bit 4 (u ! 6) = 7 \<and> drop_bit 6 (u ! 8) = 2"
  using assms
proof
  assume gen: "uuid_generate_v7 h = Inr u"
  then obtain t f where "realtime h = Some t" and "entropy h = Some f"
    by (auto simp add: generate_cases split: option.splits)
  define v where "v = push_bit 16 (clock_millis t) OR 0x7000 OR subms_fraction (tv_nsec t)"
  from gen \<open>realtime h = Some t\<close> \<open>entropy h = Some f\<close>
  have u: "u = rev (le_bytes v) @ [(f 0 AND 0x3f) OR 0x80, f 1, f 2, f 3, f 4, f 5, f 6, f 7]"
    by (simp add: generate_ok v_def)
  have len: "length u = 16"
    by (simp add: u length_le_bytes)
  have "u ! 6 = ucast (drop_bit 8 v)"
    by (simp add: u le_bytes_list nth_append)
  then have b6: "drop_bit 4 (u ! 6) = 7"
    by (simp only: v_def subms_fraction_def generated_version_nibble)
  have "u ! 8 = (f 0 AND 0x3f) OR 0x80"
    by (simp add: u length_le_bytes nth_append)
  then have b8: "drop_bit 6 (u ! 8) = 2"
    by (simp only: variant_bits)
  from len b6 b8 show ?thesis
    by simp
next
  assume enc: "uuid_uint64_to_v7 h ts zero = Inr u"
  show ?thesis
  proof (cases zero)
    case True
    with enc show ?thesis
      using version_nibble [of 0] variant_bits [of 0]
      by (auto simp add: encode_zero length_le_bytes nth_append)
  next
    case False
    with enc obtain f where f: "entropy h = Some f"
      by (cases "entropy h") (simp_all add: encode_fail)
    with enc False show ?thesis
      by (auto simp add: encode_random length_le_bytes nth_append version_nibble variant_bits)
  qed
qed

text \<open>The statement at sample inputs.\<close>

theorem version_variant_bits_witness:
  "(\<exists>u. uuid_generate_v7 sample_host = Inr u \<and>
        length u = 16 \<and> drop_bit 4 (u ! 6) = 7 \<and> drop_bit 6 (u ! 8) = 2) \<and>
   (\<exists>u. uuid_uint64_to_v7 sample_host_be 753315200000123 False = Inr u \<and>
        length u = 16 \<and> drop_bit 4 (u ! 6) = 7 \<and> drop_bit 6 (u ! 8) = 2)"
proof -
  have g: "uuid_generate_v7 sample_host =
      Inr [0x01, 0x8B, 0xCF, 0xE5, 0x68, 0x7B, 0x77, 0x4F,
           0xB0, 0xF1, 0xF2, 0xF3, 0xF4, 0xF5, 0xF6, 0xF7]"
    by (simp add: generate_cases sample_host_def le_bytes_list clock_millis_def
        subms_fraction_def)
  have e: "uuid_uint64_to_v7 sample_host_be 753315200000123 False =
      Inr [0x01, 0x8B, 0xCF, 0xE5, 0x68, 0x00, 0x70, 0xF1,
           0xB2, 0xF3, 0xF4, 0xF5, 0xF6, 0xF7, 0xF8, 0xF9]"
    by (simp add: encode_cases sample_host_be_def le_bytes_list EPOCH_DIFF_USECS_value)
  from version_variant_bits [OF disjI1, OF g] version_variant_bits [OF disjI2, OF e] g e
  show ?thesis
    by blast
qed

subsection \<open>C3\<close>

text \<open>
  Claim C3 (decoding). For every 16-byte UUID, \<open>uuid_v7_to_uint64\<close> returns, read as a
  signed 64-bit value, \<open>millis * 1000 - EPOCH_DIFF_USECS\<close> where \<open>millis\<close> is bytes 0 to 5
  read as a big-endian unsigned integer. Two UUIDs that agree on their first six bytes
  decode to the same value, whatever the host and its indeterminate memory. The function
  has no error branch: its result is always a value.
\<close>

theorem decode_timestamp_value:
  assumes "length u = 16" and "length u' = 16" and "take 6 u' = take 6 u"
  shows "sint (uuid_v7_to_uint64 h u) = int (big_endian (take 6 u)) * 1000 - EPOCH_DIFF_USECS \<and>
         uuid_v7_to_uint64 h' u' = uuid_v7_to_uint64 h u"
proof
  show "sint (uuid_v7_to_uint64 h u) = int (big_endian (take 6 u)) * 1000 - EPOCH_DIFF_USECS"
    using assms(1) sint_decode [of u h] by simp
  show "uuid_v7_to_uint64 h' u' = uuid_v7_to_uint64 h u"
    using assms by (simp add: uuid_v7_to_uint64_eq)
qed

text \<open>The statement at sample inputs.\<close>

theorem decode_timestamp_value_witness:
  "length sample_uuid = 16 \<and> length sample_uuid_other = 16 \<and>
   take 6 sample_uuid_other = take 6 sample_uuid \<and>
   sint (uuid_v7_to_uint64 sample_host sample_uuid) = 1710340390016 * 1000 - EPOCH_DIFF_USECS \<and>
   uuid_v7_to_uint64 sample_host_be sample_uuid_other = uuid_v7_to_uint64 sample_host sample_uuid"
proof -
  have a: "length sample_uuid = 16" and b: "length sample_uuid_other = 16"
    and c: "take 6 sample_uuid_other = take 6 sample_uuid"
    by (simp_all add: sample_uuid_def sample_uuid_other_def)
  have d: "big_endian (take 6 sample_uuid) = 1710340390016"
    by (simp add: sample_uuid_def big_endian_def)
  from decode_timestamp_value [OF a b c, of sample_host sample_host_be] a b c d
  show ?thesis
    by simp
qed

subsection \<open>C4\<close>

text \<open>
  Claim C4 (fraction). For every nanosecond count from \<open>0\<close> to \<open>999_999_999\<close> the shift
  computation of \<open>uuid_generate_v7\<close> agrees with the reference formula
  \<open>((n mod 1000000) * 4096) div 1000000\<close>, and the result is at most \<open>4095\<close>.
\<close>

theorem fraction_refines:
  assumes "unat nsec \<le> 999999999"
  shows "unat (subms_fraction nsec) = fraction_reference (unat nsec) \<and>
         fraction_reference (unat nsec) \<le> 4095"
proof -
  have "unat nsec * unat (4096 :: uint64) < 2 ^ LENGTH(64)"
    using assms by simp
  then have "unat (nsec * 4096) = unat nsec * 4096"
    by (simp add: unat_mult_lem [THEN iffD1])
  then have shl: "unat (push_bit 12 nsec) = unat nsec * 4096"
    by (simp add: push_bit_eq_mult)
  have "unat (subms_fraction nsec) = (unat nsec * 4096 div 1000000) mod 4096"
    unfolding subms_fraction_def unat_low12 unat_div shl by simp
  then have eq: "unat (subms_fraction nsec) = fraction_reference (unat nsec)"
    by (simp only: fraction_arith fraction_reference_def)
  have "unat nsec mod 1000000 < 1000000"
    by simp
  then have "fraction_reference (unat nsec) < 4096"
    unfolding fraction_reference_def by (simp add: less_mult_imp_div_less)
  with eq show ?thesis
    by simp
qed

text \<open>The statement at sample inputs.\<close>

theorem fraction_refines_witness:
  "unat (123456789 :: uint64) \<le> 999999999 \<and>
   unat (subms_fraction 123456789) = 1871 \<and> fraction_reference 123456789 = 1871"
proof -
  have a: "unat (123456789 :: uint64) \<le> 999999999"
    by simp
  have b: "fraction_reference 123456789 = 1871"
    by (simp add: fraction_reference_def)
  from fraction_refines [OF a] a b show ?thesis
    by simp
qed

subsection \<open>C5\<close>

text \<open>
  Claim C5 (zero fill is deterministic). With \<open>zero = true\<close> the result of
  \<open>uuid_uint64_to_v7\<close> depends on the timestamp only: any two hosts give the same 16
  bytes, and bytes 6 to 15 are \<open>0x70, 0x00, 0x80\<close> followed by seven zero bytes.
\<close>

theorem zero_fill_deterministic:
  "uuid_uint64_to_v7 h ts True = uuid_uint64_to_v7 h' ts True \<and>
   (\<exists>u. uuid_uint64_to_v7 h ts True = Inr u \<and> length u = 16 \<and>
        drop 6 u = [0x70, 0x00, 0x80, 0x00, 0x00, 0x00, 0x00, 0x00, 0x00, 0x00])"
  by (simp add: encode_zero length_le_bytes)

text \<open>The statement at sample inputs.\<close>

theorem zero_fill_deterministic_witness:
  "uuid_uint64_to_v7 sample_host 753315200000123 True =
     uuid_uint64_to_v7 sample_host_be 753315200000123 True \<and>
   uuid_uint64_to_v7 sample_host 753315200000123 True =
     Inr [0x01, 0x8B, 0xCF, 0xE5, 0x68, 0x00, 0x70, 0x00,
          0x80, 0x00, 0x00, 0x00, 0x00, 0x00, 0x00, 0x00]"
proof -
  have "uuid_uint64_to_v7 sample_host 753315200000123 True =
     Inr [0x01, 0x8B, 0xCF, 0xE5, 0x68, 0x00, 0x70, 0x00,
          0x80, 0x00, 0x00, 0x00, 0x00, 0x00, 0x00, 0x00]"
    by (simp add: encode_cases le_bytes_list EPOCH_DIFF_USECS_value)
  with zero_fill_deterministic [of sample_host 753315200000123 sample_host_be]
  show ?thesis
    by simp
qed

subsection \<open>C6\<close>

text \<open>
  Claim C6 (the one failure). \<open>uuid_uint64_to_v7\<close> reports that random values could not
  be generated exactly when the flag is false and the random source fails; it reports
  nothing else; with the flag true it always returns a UUID. A report is the whole
  result: no UUID comes with it.
\<close>

theorem random_unavailable_iff:
  "(uuid_uint64_to_v7 h ts zero = Inl RandomUnavailable \<longleftrightarrow> \<not> zero \<and> entropy h = None) \<and>
   (isl (uuid_uint64_to_v7 h ts zero) \<longleftrightarrow> \<not> zero \<and> entropy h = None) \<and>
   (\<exists>u. uuid_uint64_to_v7 h ts True = Inr u)"
proof (cases zero)
  case True
  then show ?thesis by (simp add: encode_zero)
next
  case False
  show ?thesis
  proof (cases "entropy h")
    case None
    with False show ?thesis by (simp add: encode_fail encode_zero)
  next
    case (Some f)
    with False show ?thesis by (simp add: encode_random encode_zero)
  qed
qed

text \<open>The statement at sample inputs.\<close>

theorem random_unavailable_iff_witness:
  "uuid_uint64_to_v7 failing_host 753315200000123 False = Inl RandomUnavailable \<and>
   isl (uuid_uint64_to_v7 failing_host 753315200000123 False) \<and>
   \<not> isl (uuid_uint64_to_v7 failing_host 753315200000123 True) \<and>
   \<not> isl (uuid_uint64_to_v7 sample_host 753315200000123 False)"
  using random_unavailable_iff [of failing_host 753315200000123 False]
    random_unavailable_iff [of failing_host 753315200000123 True]
    random_unavailable_iff [of sample_host 753315200000123 False]
  by (simp add: failing_host_def sample_host_def)

subsection \<open>C7\<close>

text \<open>
  Claim C7 (scenario) says that a UUID with first six bytes
  \<open>0x01 0x8E 0x38 0x3B 0x3C 0x80\<close> decodes to \<open>1700000000000000\<close> microseconds since the
  Unix epoch. The six bytes are the number \<open>1710340390016\<close>, not \<open>1700000000000\<close>, and
  the result counts from the PostgreSQL epoch: the value returned is not
  \<open>1700000000000000\<close>, and neither is the value shifted back to the Unix epoch.
\<close>

theorem scenario_decode_counterexample:
  "take 6 sample_uuid = [0x01, 0x8E, 0x38, 0x3B, 0x3C, 0x80] \<and>
   sint (uuid_v7_to_timestamptz sample_host sample_uuid) \<noteq> 1700000000000000 \<and>
   sint (uuid_v7_to_timestamptz sample_host sample_uuid) + EPOCH_DIFF_USECS \<noteq> 1700000000000000"
  by (simp add: uuid_v7_to_timestamptz_def sint_decode sample_uuid_def big_endian_def
      EPOCH_DIFF_USECS_value)

text \<open>
  Claim C7, amended. Every 16-byte UUID with first six bytes
  \<open>0x01 0x8E 0x38 0x3B 0x3C 0x80\<close> decodes, through either entry point and whatever its
  other ten bytes, to \<open>763655590016000\<close> microseconds since the PostgreSQL epoch, which is
  \<open>1710340390016000\<close> microseconds since the Unix epoch.
\<close>

theorem scenario_decode:
  assumes "length u = 16" and "take 6 u = [0x01, 0x8E, 0x38, 0x3B, 0x3C, 0x80]"
  shows "sint (uuid_v7_to_timestamptz h u) = 763655590016000 \<and>
         sint (uuid_v7_to_timestamp h u) = 763655590016000 \<and>
         sint (uuid_v7_to_timestamptz h u) + EPOCH_DIFF_USECS = 1710340390016000"
  using assms
  by (simp add: uuid_v7_to_timestamptz_def uuid_v7_to_timestamp_def sint_decode big_endian_def
      EPOCH_DIFF_USECS_value)

text \<open>The statement at sample inputs.\<close>

theorem scenario_decode_witness:
  "length sample_uuid = 16 \<and> take 6 sample_uuid = [0x01, 0x8E, 0x38, 0x3B, 0x3C, 0x80] \<and>
   sint (uuid_v7_to_timestamptz sample_host sample_uuid) = 763655590016000 \<and>
   sint (uuid_v7_to_timestamp sample_host sample_uuid) = 763655590016000"
proof -
  have a: "length sample_uuid = 16"
    and b: "take 6 sample_uuid = [0x01, 0x8E, 0x38, 0x3B, 0x3C, 0x80]"
    by (simp_all add: sample_uuid_def)
  from scenario_decode [OF a b, of sample_host] a b show ?thesis
    by simp
qed

subsection \<open>C8\<close>

text \<open>
  Claim C8 (monotonic order). When one call of \<open>uuid_generate_v7\<close> reads a clock value
  \<open>t1\<close> and another reads \<open>t2\<close>, both with nanoseconds from \<open>0\<close> to \<open>999_999_999\<close>,
  and the Unix millisecond count of \<open>t2\<close> is strictly greater than that of \<open>t1\<close>, both
  within the 48-bit field, the first UUID is lexicographically less than the second,
  whatever the random bytes of the two calls.
\<close>

theorem generate_monotonic:
  assumes "realtime h1 = Some t1" and "realtime h2 = Some t2"
    and "timespec_valid t1" and "timespec_valid t2"
    and "0 \<le> unix_millis t1" and "unix_millis t1 < unix_millis t2" and "unix_millis t2 < 2 ^ 48"
    and "uuid_generate_v7 h1 = Inr u1" and "uuid_generate_v7 h2 = Inr u2"
  shows "lex_less u1 u2"
proof -
  have stamp: "\<exists>r. u = take 6 (rev (le_bytes (push_bit 16 (clock_millis t) OR 0x7000 OR
                        subms_fraction (tv_nsec t)))) @ r"
    if "realtime h = Some t" and "uuid_generate_v7 h = Inr u" for h t u
  proof -
    let ?bs = "rev (le_bytes (push_bit 16 (clock_millis t) OR 0x7000 OR subms_fraction (tv_nsec t)))"
    from that obtain f where "entropy h = Some f"
      by (cases "entropy h") (simp_all add: generate_cases)
    with that have "u = ?bs @ [(f 0 AND 0x3f) OR 0x80, f 1, f 2, f 3, f 4, f 5, f 6, f 7]"
      by (simp add: generate_ok)
    then have "u = take 6 ?bs @ (drop 6 ?bs @ [(f 0 AND 0x3f) OR 0x80, f 1, f 2, f 3, f 4, f 5, f 6, f 7])"
      by simp
    then show ?thesis ..
  qed
  have millis: "int (big_endian (take 6 (rev (le_bytes (push_bit 16 (clock_millis t) OR 0x7000 OR
                        subms_fraction (tv_nsec t)))))) = unix_millis t"
    if "timespec_valid t" and "0 \<le> unix_millis t" and "unix_millis t < 2 ^ 48" for t
  proof -
    have "uint (clock_millis t) = unix_millis t"
      by (rule clock_millis_value [OF that])
    then have c: "unat (clock_millis t) = nat (unix_millis t)"
      by (simp add: unat_eq_nat_uint)
    have "nat (unix_millis t) < 2 ^ 48"
      using that(2,3) by simp
    then have "unat (clock_millis t) mod 2 ^ 48 = nat (unix_millis t)"
      by (simp add: c)
    then have "int (unat (clock_millis t) mod 2 ^ 48) = unix_millis t"
      using that(2) by simp
    then show ?thesis
      by (simp only: generated_stamp)
  qed
  from stamp [OF assms(1) assms(8)] obtain r1 where u1:
    "u1 = take 6 (rev (le_bytes (push_bit 16 (clock_millis t1) OR 0x7000 OR
                        subms_fraction (tv_nsec t1)))) @ r1" ..
  from stamp [OF assms(2) assms(9)] obtain r2 where u2:
    "u2 = take 6 (rev (le_bytes (push_bit 16 (clock_millis t2) OR 0x7000 OR
                        subms_fraction (tv_nsec t2)))) @ r2" ..
  have v1: "int (big_endian (take 6 (rev (le_bytes (push_bit 16 (clock_millis t1) OR 0x7000 OR
                        subms_fraction (tv_nsec t1)))))) = unix_millis t1"
    using assms by (intro millis) simp_all
  have v2: "int (big_endian (take 6 (rev (le_bytes (push_bit 16 (clock_millis t2) OR 0x7000 OR
                        subms_fraction (tv_nsec t2)))))) = unix_millis t2"
    using assms by (intro millis) simp_all
  have "big_endian (take 6 (rev (le_bytes (push_bit 16 (clock_millis t1) OR 0x7000 OR
                        subms_fraction (tv_nsec t1)))))
        < big_endian (take 6 (rev (le_bytes (push_bit 16 (clock_millis t2) OR 0x7000 OR
                        subms_fraction (tv_nsec t2)))))"
    using assms(6) v1 v2 by linarith
  then show ?thesis
    unfolding u1 u2 by (intro lex_less_prefix) (simp add: length_le_bytes)
qed

text \<open>The statement at sample inputs.\<close>

theorem generate_monotonic_witness:
  "realtime sample_host = Some \<lparr>tv_sec = 1700000000, tv_nsec = 123456789\<rparr> \<and>
   realtime sample_host_be = Some \<lparr>tv_sec = 1700000000, tv_nsec = 124000000\<rparr> \<and>
   unix_millis \<lparr>tv_sec = 1700000000, tv_nsec = 123456789\<rparr> = 1700000000123 \<and>
   unix_millis \<lparr>tv_sec = 1700000000, tv_nsec = 124000000\<rparr> = 1700000000124 \<and>
   uuid_generate_v7 sample_host =
      Inr [0x01, 0x8B, 0xCF, 0xE5, 0x68, 0x7B, 0x77, 0x4F,
           0xB0, 0xF1, 0xF2, 0xF3, 0xF4, 0xF5, 0xF6, 0xF7] \<and>
   uuid_generate_v7 sample_host_be =
      Inr [0x01, 0x8B, 0xCF, 0xE5, 0x68, 0x7C, 0x70, 0x00,
           0xB0, 0xF1, 0xF2, 0xF3, 0xF4, 0xF5, 0xF6, 0xF7] \<and>
   lex_less [0x01, 0x8B, 0xCF, 0xE5, 0x68, 0x7B, 0x77, 0x4F,
             0xB0, 0xF1, 0xF2, 0xF3, 0xF4, 0xF5, 0xF6, 0xF7]
            [0x01, 0x8B, 0xCF, 0xE5, 0x68, 0x7C, 0x70, 0x00,
             0xB0, 0xF1, 0xF2, 0xF3, 0xF4, 0xF5, 0xF6, 0xF7]"
proof -
  let ?t1 = "\<lparr>tv_sec = 1700000000, tv_nsec = 123456789\<rparr>"
  let ?t2 = "\<lparr>tv_sec = 1700000000, tv_nsec = 124000000\<rparr>"
  have r1: "realtime sample_host = Some ?t1"
    by (simp add: sample_host_def)
  have r2: "realtime sample_host_be = Some ?t2"
    by (simp add: sample_host_be_def)
  have v1: "timespec_valid ?t1" and v2: "timespec_valid ?t2"
    by (simp_all add: timespec_valid_def)
  have m1: "unix_millis ?t1 = 1700000000123" and m2: "unix_millis ?t2 = 1700000000124"
    by (simp_all add: unix_millis_def)
  have g1: "uuid_generate_v7 sample_host =
      Inr [0x01, 0x8B, 0xCF, 0xE5, 0x68, 0x7B, 0x77, 0x4F,
           0xB0, 0xF1, 0xF2, 0xF3, 0xF4, 0xF5, 0xF6, 0xF7]"
    by (simp add: generate_cases sample_host_def le_bytes_list clock_millis_def
        subms_fraction_def)
  have g2: "uuid_generate_v7 sample_host_be =
      Inr [0x01, 0x8B, 0xCF, 0xE5, 0x68, 0x7C, 0x70, 0x00,
           0xB0, 0xF1, 0xF2, 0xF3, 0xF4, 0xF5, 0xF6, 0xF7]"
    by (simp add: generate_cases sample_host_be_def le_bytes_list clock_millis_def
        subms_fraction_def)
  have "lex_less [0x01, 0x8B, 0xCF, 0xE5, 0x68, 0x7B, 0x77, 0x4F,
             0xB0, 0xF1, 0xF2, 0xF3, 0xF4, 0xF5, 0xF6, 0xF7]
            [0x01, 0x8B, 0xCF, 0xE5, 0x68, 0x7C, 0x70, 0x00,
             0xB0, 0xF1, 0xF2, 0xF3, 0xF4, 0xF5, 0xF6, 0xF7]"
    by (rule generate_monotonic [OF r1 r2 v1 v2 _ _ _ g1 g2]) (simp_all add: m1 m2)
  with r1 r2 m1 m2 g1 g2 show ?thesis
    by simp
qed

subsection \<open>C9\<close>

text \<open>
  Claim C9 (entry points). The two decoding entry points return the same value for every
  16-byte UUID, and the two encoding entry points return the same result for every
  timestamp and flag argument when the random source delivers the same bytes. Each is its
  helper: the decoders are \<open>uuid_v7_to_uint64\<close>, the encoders are \<open>uuid_uint64_to_v7\<close> with
  the flag defaulting to false.
\<close>

theorem entry_points_agree:
  assumes "length u = 16" and "entropy h = entropy h'"
  shows "uuid_v7_to_timestamptz h u = uuid_v7_to_timestamp h' u \<and>
         uuid_timestamptz_to_v7 h ts arg1 = uuid_timestamp_to_v7 h' ts arg1 \<and>
         uuid_v7_to_timestamptz h u = uuid_v7_to_uint64 h u \<and>
         uuid_v7_to_timestamp h u = uuid_v7_to_uint64 h u \<and>
         uuid_timestamptz_to_v7 h ts arg1 =
           uuid_uint64_to_v7 h ts (case arg1 of None \<Rightarrow> False | Some zero \<Rightarrow> zero) \<and>
         uuid_timestamp_to_v7 h ts arg1 =
           uuid_uint64_to_v7 h ts (case arg1 of None \<Rightarrow> False | Some zero \<Rightarrow> zero)"
proof -
  have "uuid_v7_to_uint64 h u = uuid_v7_to_uint64 h' u"
    using assms(1) by (simp add: uuid_v7_to_uint64_eq)
  moreover have "uuid_uint64_to_v7 h ts zero = uuid_uint64_to_v7 h' ts zero" for zero
    using assms(2) by (rule encode_same_entropy)
  ultimately show ?thesis
    by (simp add: uuid_v7_to_timestamptz_def uuid_v7_to_timestamp_def
        uuid_timestamptz_to_v7_def uuid_timestamp_to_v7_def)
qed

text \<open>The statement at sample inputs.\<close>

theorem entry_points_agree_witness:
  "length sample_uuid = 16 \<and> entropy sample_host = entropy sample_host_be \<and>
   uuid_v7_to_timestamptz sample_host sample_uuid = uuid_v7_to_timestamp sample_host_be sample_uuid \<and>
   uuid_timestamptz_to_v7 sample_host 753315200000123 None =
     uuid_timestamp_to_v7 sample_host_be 753315200000123 None \<and>
   uuid_timestamptz_to_v7 sample_host 753315200000123 (Some True) =
     uuid_timestamp_to_v7 sample_host_be 753315200000123 (Some True)"
proof -
  have a: "length sample_uuid = 16"
    by (simp add: sample_uuid_def)
  have b: "entropy sample_host = entropy sample_host_be"
    by (simp add: sample_host_def sample_host_be_def)
  from entry_points_agree [OF a b, of 753315200000123 None]
    entry_points_agree [OF a b, of 753315200000123 "Some True"] a b
  show ?thesis
    by simp
qed

subsection \<open>C10\<close>

text \<open>
  Claim C10 (silent wrap-around). For every signed 64-bit timestamp, in or out of range,
  \<open>uuid_uint64_to_v7\<close> either fails because the random source does, or returns a UUID
  whose bytes 0 to 5 are, as a big-endian integer,
  \<open>(((ts + EPOCH_DIFF_USECS) mod 2^64) div 1000) mod 2^48\<close>. There is no range error.
\<close>

theorem encode_wraps_silently:
  "(\<not> zero \<and> entropy h = None \<and> uuid_uint64_to_v7 h ts zero = Inl RandomUnavailable) \<or>
   (\<exists>u. uuid_uint64_to_v7 h ts zero = Inr u \<and> length u = 16 \<and>
        int (big_endian (take 6 u)) =
          ((sint ts + EPOCH_DIFF_USECS) mod 2 ^ 64 div 1000) mod 2 ^ 48)"
proof (cases "\<not> zero \<and> entropy h = None")
  case True
  then show ?thesis by (simp add: encode_fail)
next
  case False
  have "\<exists>tail. length tail = 10 \<and> uuid_uint64_to_v7 h ts zero =
          Inr (take 6 (rev (le_bytes (push_bit 16 ((ts + word_of_int EPOCH_DIFF_USECS) div 1000))))
               @ tail)"
  proof (cases zero)
    case True
    then show ?thesis by (simp add: encode_zero)
  next
    case zero: False
    with False obtain f where "entropy h = Some f"
      by auto
    with zero show ?thesis by (simp add: encode_random)
  qed
  then obtain tail where tail: "length tail = 10" and
    u: "uuid_uint64_to_v7 h ts zero =
          Inr (take 6 (rev (le_bytes (push_bit 16 ((ts + word_of_int EPOCH_DIFF_USECS) div 1000))))
               @ tail)"
    by blast
  show ?thesis
    using tail by (simp add: u length_le_bytes stamp_of_timestamp)
qed

text \<open>The statement at sample inputs.\<close>

theorem encode_wraps_silently_witness:
  "uuid_uint64_to_v7 sample_host (- 946684800000001) True =
     Inr [0x89, 0x37, 0x4B, 0xC6, 0xA7, 0xEF, 0x70, 0x00,
          0x80, 0x00, 0x00, 0x00, 0x00, 0x00, 0x00, 0x00] \<and>
   int (big_endian [0x89, 0x37, 0x4B, 0xC6, 0xA7, 0xEF]) =
     ((sint (- 946684800000001 :: uint64) + EPOCH_DIFF_USECS) mod 2 ^ 64 div 1000) mod 2 ^ 48 \<and>
   sint (- 946684800000001 :: uint64) + EPOCH_DIFF_USECS = - 1"
proof -
  have e: "uuid_uint64_to_v7 sample_host (- 946684800000001) True =
     Inr [0x89, 0x37, 0x4B, 0xC6, 0xA7, 0xEF, 0x70, 0x00,
          0x80, 0x00, 0x00, 0x00, 0x00, 0x00, 0x00, 0x00]"
    by (simp add: encode_cases le_bytes_list EPOCH_DIFF_USECS_value)
  have s: "sint (- 946684800000001 :: uint64) + EPOCH_DIFF_USECS = - 1"
    by (simp add: EPOCH_DIFF_USECS_value)
  from encode_wraps_silently [of True sample_host "- 946684800000001"] e s show ?thesis
    by simp
qed

end
